theory Spec2Isabelle
  imports Main "HOL-Library.Word"
begin

section \<open>The listing command: \<open>cmd/restic/cmd_ls.go\<close>\<close>

text \<open>
  The only source file of the repository at hand is the \<open>ls\<close> command. Its function
  \<open>runLs\<close> is embedded with its effects made explicit: the calls it makes to the rest of
  the program are recorded in a trace, what it prints is collected in an output list, and an
  error return or a run-time panic is a value of type \<open>error\<close>.
\<close>

subsection \<open>Data\<close>

datatype error =
    Fatal string   \<comment> \<open>\<open>errors.Fatal(msg)\<close>\<close>
  | Err string     \<comment> \<open>any other error value returned by a callee\<close>
  | Panic string   \<comment> \<open>a Go run-time panic\<close>

text \<open>\<open>type LsOptions struct\<close>; \<open>restic.TagLists\<close> is a list of tag lists.\<close>

record LsOptions =
  ListLong :: bool
  Host :: string
  Tags :: "string list list"
  Paths :: "string list"
  Recursive :: bool

text \<open>
  Of a snapshot \<open>runLs\<close> uses \<open>sn.ID()\<close>, \<open>sn.Paths\<close>, \<open>sn.Time\<close> and the pointer
  \<open>sn.Tree\<close>, which it dereferences; a nil pointer is \<open>None\<close>.
\<close>

record 't Snapshot =
  sn_ID :: string
  sn_Paths :: "string list"
  sn_Time :: string
  sn_Tree :: "'t option"

text \<open>What the command prints: the \<open>Verbosef\<close> line of a snapshot, and the \<open>Printf\<close> line
  of a node, \<open>formatNode(nodepath, node, lsOptions.ListLong)\<close>, kept symbolic.\<close>

datatype ('t, 'n) printout =
    Verbosef_snapshot "'t Snapshot"
  | Printf_node string 'n bool

text \<open>The calls \<open>runLs\<close> makes, in order. \<open>Call_lockRepo\<close> is the call by which other
  commands of the program take the repository lock; it is part of the alphabet so that its
  absence from a trace can be stated.\<close>

datatype ('r, 't) call =
    Call_OpenRepository
  | Call_LoadIndex 'r
  | Call_FindFilteredSnapshots 'r string "string list list" "string list" "string list"
  | Call_Walk 'r 't
  | Call_lockRepo 'r

text \<open>The type of the closure handed to \<open>walker.Walk\<close>: path, node (nil is \<open>None\<close>), error
  (nil is \<open>None\<close>); it returns \<open>(bool, error)\<close> and may print.\<close>

type_synonym ('t, 'n) WalkFunc =
  "string \<Rightarrow> 'n option \<Rightarrow> error option \<Rightarrow> ('t, 'n) printout list
     \<Rightarrow> (bool \<times> error option) \<times> ('t, 'n) printout list"

text \<open>
  The functions \<open>runLs\<close> calls are defined outside this file and are taken as parameters:
  \<open>OpenRepository(gopts)\<close>, \<open>repo.LoadIndex\<close>, \<open>FindFilteredSnapshots\<close> (the snapshots its
  channel delivers, in order), \<open>walker.Walk\<close> (which receives the closure and the output so
  far), the standard library's \<open>filepath.Dir\<close>, and the global \<open>lsOptions.ListLong\<close>.
\<close>

record ('r, 't, 'n) env =
  OpenRepository :: "error + 'r"
  LoadIndex :: "'r \<Rightarrow> error option"
  FindFilteredSnapshots ::
    "'r \<Rightarrow> string \<Rightarrow> string list list \<Rightarrow> string list \<Rightarrow> string list \<Rightarrow> 't Snapshot list"
  walker_Walk ::
    "'r \<Rightarrow> 't \<Rightarrow> ('t, 'n) WalkFunc \<Rightarrow> ('t, 'n) printout list
       \<Rightarrow> error option \<times> ('t, 'n) printout list"
  filepath_Dir :: "string \<Rightarrow> string"
  lsOptions_ListLong :: bool

subsection \<open>The directory filter\<close>

text \<open>\<open>strings.HasPrefix(s, prefix)\<close> is
  \<open>len(s) >= len(prefix) && s[:len(prefix)] == prefix\<close>.\<close>

definition HasPrefix :: "string \<Rightarrow> string \<Rightarrow> bool" where
  "HasPrefix s pre = (length s \<ge> length pre \<and> take (length pre) s = pre)"

text \<open>The loop \<open>for _, dir := range dirs\<close> with its two \<open>break\<close>s; the result is the
  variable \<open>match\<close>.\<close>

fun match_dirs :: "bool \<Rightarrow> string \<Rightarrow> string \<Rightarrow> string list \<Rightarrow> bool" where
  "match_dirs recursive nodepath nodeDir [] = False"
| "match_dirs recursive nodepath nodeDir (dir # dirs) =
     (if recursive then
        (if HasPrefix nodepath dir then True
         else match_dirs recursive nodepath nodeDir dirs)
      else
        (if nodeDir = dir then True
         else match_dirs recursive nodepath nodeDir dirs))"

text \<open>The closure of \<open>runLs\<close>. \<open>nodeDir\<close> is the empty string unless the listing is
  non-recursive.\<close>

definition lsWalkFunc ::
  "LsOptions \<Rightarrow> bool \<Rightarrow> (string \<Rightarrow> string) \<Rightarrow> string list \<Rightarrow> ('t, 'n) WalkFunc" where
  "lsWalkFunc opts listLong Dir dirs nodepath node err out =
     (case err of
        Some e \<Rightarrow> ((False, Some e), out)
      | None \<Rightarrow>
          (case node of
             None \<Rightarrow> ((False, None), out)
           | Some n \<Rightarrow>
               (if length dirs > 0 \<and>
                   \<not> match_dirs (Recursive opts) nodepath
                       (if \<not> Recursive opts then Dir nodepath else []) dirs
                then ((True, None), out)
                else ((False, None), out @ [Printf_node nodepath n listLong]))))"

subsection \<open>\<open>runLs\<close>\<close>

text \<open>The result of a run: the returned error (or nil), the calls made, the output.\<close>

type_synonym ('r, 't, 'n) run =
  "(error + unit) \<times> ('r, 't) call list \<times> ('t, 'n) printout list"

definition result :: "('r, 't, 'n) run \<Rightarrow> error + unit" where
  "result r = fst r"

definition calls :: "('r, 't, 'n) run \<Rightarrow> ('r, 't) call list" where
  "calls r = fst (snd r)"

definition printed :: "('r, 't, 'n) run \<Rightarrow> ('t, 'n) printout list" where
  "printed r = snd (snd r)"

text \<open>The loop \<open>for sn := range FindFilteredSnapshots(...)\<close>. Dereferencing a nil
  \<open>sn.Tree\<close> panics before \<open>walker.Walk\<close> is entered; an error of the walk is returned
  at once.\<close>

fun walk_snapshots ::
  "('r, 't, 'n) env \<Rightarrow> LsOptions \<Rightarrow> string list \<Rightarrow> 'r \<Rightarrow> 't Snapshot list
     \<Rightarrow> ('r, 't) call list \<Rightarrow> ('t, 'n) printout list \<Rightarrow> ('r, 't, 'n) run" where
  "walk_snapshots E opts dirs repo [] cs out = (Inr (), cs, out)"
| "walk_snapshots E opts dirs repo (sn # sns) cs out =
     (case sn_Tree sn of
        None \<Rightarrow> (Inl (Panic ''invalid memory address or nil pointer dereference''),
                 cs, out @ [Verbosef_snapshot sn])
      | Some tree \<Rightarrow>
          (case walker_Walk E repo tree
                  (lsWalkFunc opts (lsOptions_ListLong E) (filepath_Dir E) dirs)
                  (out @ [Verbosef_snapshot sn]) of
             (Some e, out') \<Rightarrow> (Inl e, cs @ [Call_Walk repo tree], out')
           | (None, out') \<Rightarrow>
               walk_snapshots E opts dirs repo sns (cs @ [Call_Walk repo tree]) out'))"

definition invalid_arguments :: string where
  "invalid_arguments =
     ''Invalid arguments, either give one or more snapshot IDs or set filters.''"

text \<open>\<open>args[1:]\<close> on an empty slice is out of range and panics; otherwise \<open>dirs\<close> is the
  tail of \<open>args\<close> and \<open>args[:1]\<close> its first element.\<close>

definition runLs ::
  "('r, 't, 'n) env \<Rightarrow> LsOptions \<Rightarrow> string list \<Rightarrow> ('r, 't, 'n) run" where
  "runLs E opts args =
     (if length args = 0 \<and> Host opts = [] \<and> length (Tags opts) = 0 \<and> length (Paths opts) = 0
      then (Inl (Fatal invalid_arguments), [], [])
      else
        (case OpenRepository E of
           Inl e \<Rightarrow> (Inl e, [Call_OpenRepository], [])
         | Inr repo \<Rightarrow>
             (case LoadIndex E repo of
                Some e \<Rightarrow> (Inl e, [Call_OpenRepository, Call_LoadIndex repo], [])
              | None \<Rightarrow>
                  (case args of
                     [] \<Rightarrow> (Inl (Panic ''slice bounds out of range [1:0]''),
                            [Call_OpenRepository, Call_LoadIndex repo], [])
                   | a # dirs \<Rightarrow>
                       walk_snapshots E opts dirs repo
                         (FindFilteredSnapshots E repo (Host opts) (Tags opts) (Paths opts) [a])
                         [Call_OpenRepository, Call_LoadIndex repo,
                          Call_FindFilteredSnapshots repo (Host opts) (Tags opts) (Paths opts) [a]]
                         []))))"

subsection \<open>An example environment\<close>

text \<open>One snapshot whose tree holds the file \<open>/foobar/file\<close>; the walker calls the closure
  once, on that node.\<close>

abbreviation ls_example_opts :: LsOptions where
  "ls_example_opts \<equiv>
     \<lparr>ListLong = False, Host = [], Tags = [], Paths = [], Recursive = True\<rparr>"

abbreviation ls_example_env :: "(nat, nat, nat) env" where
  "ls_example_env \<equiv>
     \<lparr>OpenRepository = Inr 0,
      LoadIndex = (\<lambda>r. None),
      FindFilteredSnapshots = (\<lambda>r h ts ps ids.
         [\<lparr>sn_ID = ''4bba301e'', sn_Paths = [''/''], sn_Time = ''2018-06-10'', sn_Tree = Some 7\<rparr>]),
      walker_Walk = (\<lambda>r t f out. case f ''/foobar/file'' (Some 1) None out of
                                     ((ignore, e), out') \<Rightarrow> (e, out')),
      filepath_Dir = (\<lambda>p. ''/foobar''),
      lsOptions_ListLong = False\<rparr>"

text \<open>The same environment with a walker that visits the nodes of a tree in order, here the
  files \<open>/foobar/file\<close> and \<open>/other/file\<close>, and does nothing else.\<close>

abbreviation ls_example_visiting_env :: "(nat, nat, nat) env" where
  "ls_example_visiting_env \<equiv>
     \<lparr>OpenRepository = Inr 0,
      LoadIndex = (\<lambda>r. None),
      FindFilteredSnapshots = (\<lambda>r h ts ps ids.
         [\<lparr>sn_ID = ''4bba301e'', sn_Paths = [''/''], sn_Time = ''2018-06-10'', sn_Tree = Some 7\<rparr>]),
      walker_Walk = (\<lambda>r t f out.
         (None, fold (\<lambda>(p, n) acc. snd (f p (Some n) None acc))
                  [(''/foobar/file'', 1), (''/other/file'', 2)] out)),
      filepath_Dir = (\<lambda>p. if p = ''/foobar/file'' then ''/foobar'' else ''/other''),
      lsOptions_ListLong = False\<rparr>"

section \<open>The lock manager\<close>

text \<open>
  The lock manager is not among the source files at hand; the release note kept with
  \<open>cmd_ls.go\<close> ("Ignore empty lock files") describes one of its behaviours. Its
  acquisition protocol is modelled from the specification's section 4.5. A backend holds
  the lock objects as a list of identifier and payload, in the order its listing delivers
  them. Backend reads in the model always answer: the retry of transient read errors is
  not part of it.
\<close>

type_synonym bytes = "8 word list"

text \<open>Modelled from the spec: the lock object schema (section 6),
  \<open>{creationTime, exclusive: bool, hostname, username, processID, lockID}\<close>; the lock
  manager's record type is missing from the sources.\<close>

record lock =
  creationTime :: int
  exclusive :: bool
  hostname :: string
  username :: string
  processID :: nat
  lockID :: nat

type_synonym lock_objects = "(nat \<times> bytes) list"

text \<open>Modelled from the spec: the two Fatal conditions of lock acquisition (section 7):
  the unreadable lock (non-empty, unparsable), naming the object, and the lock conflict,
  identifying the conflicting lock; the lock manager's error values are missing from the
  sources.\<close>

datatype lock_fatal =
    Unreadable_lock nat
  | Lock_conflict nat lock

text \<open>Modelled from the spec: what the specification leaves as configuration of the lock
  manager, whose code is missing: the parser of the serialized lock record and its
  serializer (section 6 names the fields, not the encoding), and the staleness threshold
  (section 9: a configuration parameter).\<close>

record lock_params =
  parse_lock :: "bytes \<Rightarrow> lock option"
  serialize_lock :: "lock \<Rightarrow> bytes"
  stale_threshold :: int

text \<open>Modelled from the spec: the backend adapter's \<open>put\<close> (overwrites an existing
  identifier, section 6) and \<open>remove\<close>; the backend code is missing from the sources.\<close>

definition backend_put :: "('k \<times> 'v) list \<Rightarrow> 'k \<Rightarrow> 'v \<Rightarrow> ('k \<times> 'v) list" where
  "backend_put objs i v =
     (if i \<in> fst ` set objs
      then map (\<lambda>(j, w). if j = i then (j, v) else (j, w)) objs
      else objs @ [(i, v)])"

definition backend_remove :: "('k \<times> 'v) list \<Rightarrow> 'k \<Rightarrow> ('k \<times> 'v) list" where
  "backend_remove objs i = filter (\<lambda>(j, w). j \<noteq> i) objs"

text \<open>Modelled from the spec: staleness of a parsed lock (section 4.5, glossary); the lock
  manager's test is missing from the sources. A lock is stale when its creation time is
  older than the staleness threshold. The evidence that the owner is alive which the
  specification defines is the refresh, which rewrites the creation time of a held lock
  "so other processes do not see it go stale"; the glossary's stale lock is one "whose age
  exceeds the liveness threshold with no refresh evidence". So the age of the creation time
  decides.\<close>

definition stale :: "lock_params \<Rightarrow> int \<Rightarrow> lock \<Rightarrow> bool" where
  "stale P now l = (now - creationTime l > stale_threshold P)"

text \<open>Modelled from the spec: which locks block a request (section 4.5): "an exclusive
  request conflicts with any other lock; a shared request conflicts only with an exclusive
  lock"; the lock manager's test is missing from the sources.\<close>

definition conflicts :: "bool \<Rightarrow> lock \<Rightarrow> bool" where
  "conflicts excl l = (excl \<or> exclusive l)"

text \<open>Modelled from the spec: the pass over the listed lock objects (section 4.5): "for
  each, attempt to read and parse it"; the lock manager's loop is missing from the sources.
  The requester's own object (\<open>own\<close>, known after it has been written) is not another
  lock and is passed over. A zero-length object is treated as absent. A non-empty object
  that does not parse stops the pass with the Fatal unreadable-lock condition. A parsed
  lock that is stale is ignored; one that is not stale and conflicts with the request
  stops the pass with the conflict. \<open>None\<close> means that no conflicting live lock
  remains.\<close>

fun check_locks ::
  "lock_params \<Rightarrow> int \<Rightarrow> bool \<Rightarrow> nat option \<Rightarrow> lock_objects \<Rightarrow> lock_fatal option" where
  "check_locks P now excl own [] = None"
| "check_locks P now excl own ((i, payload) # objs) =
     (if own = Some i then check_locks P now excl own objs
      else if payload = [] then check_locks P now excl own objs
      else
        (case parse_lock P payload of
           None \<Rightarrow> Some (Unreadable_lock i)
         | Some l \<Rightarrow>
             (if stale P now l then check_locks P now excl own objs
              else if conflicts excl l then Some (Lock_conflict i l)
              else check_locks P now excl own objs)))"

text \<open>Modelled from the spec: \<open>Acquire(exclusive)\<close> (section 4.5); the lock manager's
  function is missing from the sources. \<open>me\<close> carries the requester's host, user, process
  and the random identifier of the new lock; \<open>objs\<close> are the lock objects in the backend;
  \<open>arrived\<close> are the lock objects other processes write between this process's write and
  its second listing. If the first pass finds no conflicting live lock, the new lock object
  is written and the full list is read once more; "if a conflict is now visible, release
  the just-written lock and fail the acquisition". The result is the Fatal condition or the
  lock now held, and the lock objects the backend holds afterwards.\<close>

definition acquire ::
  "lock_params \<Rightarrow> int \<Rightarrow> bool \<Rightarrow> lock \<Rightarrow> lock_objects \<Rightarrow> lock_objects
     \<Rightarrow> (lock_fatal + lock) \<times> lock_objects" where
  "acquire P now excl me objs arrived =
     (case check_locks P now excl None objs of
        Some e \<Rightarrow> (Inl e, objs)
      | None \<Rightarrow>
          (let new = me\<lparr>creationTime := now, exclusive := excl\<rparr>;
               objs' = backend_put objs (lockID new) (serialize_lock P new) @ arrived
           in case check_locks P now excl (Some (lockID new)) objs' of
                Some e \<Rightarrow> (Inl e, backend_remove objs' (lockID new))
              | None \<Rightarrow> (Inr new, objs')))"

subsection \<open>Example lock objects\<close>

text \<open>A shared lock created 1000 seconds before the time 10000 of the examples, an
  exclusive lock created 10000 seconds before it, the requester, and parameters with a
  staleness threshold of 1800 seconds whose parser reads the payload \<open>[1]\<close> as the first
  lock, \<open>[2]\<close> as the second and nothing else.\<close>

abbreviation lock_example_holder :: lock where
  "lock_example_holder \<equiv>
     \<lparr>creationTime = 9000, exclusive = False, hostname = ''alpha'', username = ''ann'',
      processID = 41, lockID = 1\<rparr>"

abbreviation lock_example_old :: lock where
  "lock_example_old \<equiv>
     \<lparr>creationTime = 0, exclusive = True, hostname = ''alpha'', username = ''ann'',
      processID = 17, lockID = 2\<rparr>"

abbreviation lock_example_me :: lock where
  "lock_example_me \<equiv>
     \<lparr>creationTime = 0, exclusive = False, hostname = ''beta'', username = ''bob'',
      processID = 7, lockID = 5\<rparr>"

abbreviation lock_example_params :: lock_params where
  "lock_example_params \<equiv>
     \<lparr>parse_lock = (\<lambda>b. if b = [1] then Some lock_example_holder
                        else if b = [2] then Some lock_example_old else None),
      serialize_lock = (\<lambda>l. [3]),
      stale_threshold = 1800\<rparr>"

section \<open>Properties of the listing command\<close>

lemma HasPrefix_iff: "HasPrefix s pre = (\<exists>rest. s = pre @ rest)"
  unfolding HasPrefix_def
proof
  assume h: "length pre \<le> length s \<and> take (length pre) s = pre"
  have "s = take (length pre) s @ drop (length pre) s" by simp
  with h have "s = pre @ drop (length pre) s" by simp
  then show "\<exists>rest. s = pre @ rest" ..
next
  assume "\<exists>rest. s = pre @ rest"
  then show "length pre \<le> length s \<and> take (length pre) s = pre" by auto
qed

lemma match_dirs_iff:
  "match_dirs recursive nodepath nodeDir dirs =
     (\<exists>dir \<in> set dirs. if recursive then HasPrefix nodepath dir else nodeDir = dir)"
  by (induction dirs) auto

lemma calls_walk_snapshots:
  "\<exists>ws. calls (walk_snapshots E opts dirs repo sns cs out) = cs @ ws \<and>
        (\<forall>c \<in> set ws. \<exists>t. c = Call_Walk repo t)"
proof (induction sns arbitrary: cs out)
  case Nil
  then show ?case by (simp add: calls_def)
next
  case (Cons sn sns)
  show ?case
  proof (cases "sn_Tree sn")
    case None
    then show ?thesis by (simp add: calls_def)
  next
    case (Some tree)
    obtain err out' where w: "walker_Walk E repo tree
        (lsWalkFunc opts (lsOptions_ListLong E) (filepath_Dir E) dirs)
        (out @ [Verbosef_snapshot sn]) = (err, out')"
      by (cases "walker_Walk E repo tree
        (lsWalkFunc opts (lsOptions_ListLong E) (filepath_Dir E) dirs)
        (out @ [Verbosef_snapshot sn])") 
    show ?thesis
    proof (cases err)
      case None
      from Cons.IH [of "cs @ [Call_Walk repo tree]" out']
      obtain ws where "calls (walk_snapshots E opts dirs repo sns (cs @ [Call_Walk repo tree]) out')
          = (cs @ [Call_Walk repo tree]) @ ws" and "\<forall>c \<in> set ws. \<exists>t. c = Call_Walk repo t"
        by blast
      then have "calls (walk_snapshots E opts dirs repo (sn # sns) cs out) = cs @ (Call_Walk repo tree # ws)
          \<and> (\<forall>c \<in> set (Call_Walk repo tree # ws). \<exists>t. c = Call_Walk repo t)"
        using Some w None by simp
      then show ?thesis by blast
    next
      case (Some e)
      then have "calls (walk_snapshots E opts dirs repo (sn # sns) cs out) = cs @ [Call_Walk repo tree]"
        using \<open>sn_Tree sn = Some tree\<close> w by (simp add: calls_def)
      then show ?thesis by auto
    qed
  qed
qed

lemma calls_runLs_cases:
  "calls (runLs E opts args) = [] \<and> result (runLs E opts args) = Inl (Fatal invalid_arguments)
      \<and> (args = [] \<and> Host opts = [] \<and> Tags opts = [] \<and> Paths opts = [])
   \<or> (\<not> (args = [] \<and> Host opts = [] \<and> Tags opts = [] \<and> Paths opts = []) \<and>
       ((\<exists>e. OpenRepository E = Inl e \<and> calls (runLs E opts args) = [Call_OpenRepository])
     \<or> (\<exists>r. OpenRepository E = Inr r \<and> LoadIndex E r \<noteq> None \<and>
            calls (runLs E opts args) = [Call_OpenRepository, Call_LoadIndex r])
     \<or> (\<exists>r ws. OpenRepository E = Inr r \<and> LoadIndex E r = None \<and>
            calls (runLs E opts args) = [Call_OpenRepository, Call_LoadIndex r] @ ws \<and>
            (\<forall>c \<in> set ws. (\<exists>t. c = Call_Walk r t) \<or> (\<exists>h ts ps ids. c = Call_FindFilteredSnapshots r h ts ps ids)))))"
proof (cases "args = [] \<and> Host opts = [] \<and> Tags opts = [] \<and> Paths opts = []")
  case True
  then show ?thesis by (simp add: runLs_def calls_def result_def)
next
  case guard: False
  show ?thesis
  proof (cases "OpenRepository E")
    case (Inl e)
    with guard show ?thesis by (auto simp add: runLs_def calls_def)
  next
    case (Inr r)
    show ?thesis
    proof (cases "LoadIndex E r")
      case (Some e)
      with guard Inr show ?thesis by (auto simp add: runLs_def calls_def)
    next
      case None
      show ?thesis
      proof (cases args)
        case Nil
        with guard Inr None show ?thesis by (auto simp add: runLs_def calls_def)
      next
        case (Cons a dirs)
        let ?cs = "[Call_OpenRepository, Call_LoadIndex r,
                          Call_FindFilteredSnapshots r (Host opts) (Tags opts) (Paths opts) [a]]"
        let ?sns = "FindFilteredSnapshots E r (Host opts) (Tags opts) (Paths opts) [a]"
        from calls_walk_snapshots [of E opts dirs r ?sns ?cs "[]"]
        obtain ws where ws: "calls (walk_snapshots E opts dirs r ?sns ?cs []) = ?cs @ ws"
          "\<forall>c \<in> set ws. \<exists>t. c = Call_Walk r t" by blast
        have "calls (runLs E opts args) = ?cs @ ws"
          using guard Inr None Cons ws(1) by (simp add: runLs_def)
        then have "calls (runLs E opts args) = [Call_OpenRepository, Call_LoadIndex r] @ 
            (Call_FindFilteredSnapshots r (Host opts) (Tags opts) (Paths opts) [a] # ws)" by simp
        moreover have "\<forall>c \<in> set (Call_FindFilteredSnapshots r (Host opts) (Tags opts) (Paths opts) [a] # ws).
            (\<exists>t. c = Call_Walk r t) \<or> (\<exists>h ts ps ids. c = Call_FindFilteredSnapshots r h ts ps ids)"
          using ws(2) by auto
        ultimately show ?thesis using guard Inr None by blast
      qed
    qed
  qed
qed

text \<open>
  Claim C9. \<open>runLs\<close> returns the Fatal error "Invalid arguments, ..." without having made
  any call, in particular before \<open>OpenRepository\<close>, if and only if there is no positional
  argument, no host filter, no tag filter and no path filter; in every other case its first
  call is \<open>OpenRepository\<close>.
\<close>

theorem runLs_fatal_before_open:
  "((result (runLs E opts args) = Inl (Fatal invalid_arguments) \<and> calls (runLs E opts args) = [])
      = (args = [] \<and> Host opts = [] \<and> Tags opts = [] \<and> Paths opts = []))
   \<and> ((\<exists>cs. calls (runLs E opts args) = Call_OpenRepository # cs)
      = (\<not> (args = [] \<and> Host opts = [] \<and> Tags opts = [] \<and> Paths opts = [])))"
  using calls_runLs_cases [of E opts args] by auto

text \<open>
  Claim C8. In every run of \<open>runLs\<close>, a call of \<open>walker.Walk\<close> on a repository comes after
  \<open>OpenRepository\<close> has returned that repository and \<open>LoadIndex\<close> on it has returned
  without error: these are the first two calls of the run. No run of \<open>runLs\<close> calls
  \<open>lockRepo\<close>.
\<close>

theorem runLs_walk_after_LoadIndex:
  "(\<forall>r. Call_lockRepo r \<notin> set (calls (runLs E opts args))) \<and>
   (\<forall>i r t. i < length (calls (runLs E opts args)) \<and> calls (runLs E opts args) ! i = Call_Walk r t
      \<longrightarrow> OpenRepository E = Inr r \<and> LoadIndex E r = None \<and> 2 \<le> i \<and>
          calls (runLs E opts args) ! 0 = Call_OpenRepository \<and>
          calls (runLs E opts args) ! 1 = Call_LoadIndex r)"
proof -
  let ?cs = "calls (runLs E opts args)"
  consider (fatal) "?cs = []"
    | (noopen) "?cs = [Call_OpenRepository]"
    | (noload) r where "?cs = [Call_OpenRepository, Call_LoadIndex r]"
    | (walks) r ws where "OpenRepository E = Inr r" "LoadIndex E r = None"
        "?cs = [Call_OpenRepository, Call_LoadIndex r] @ ws"
        "\<forall>c \<in> set ws. (\<exists>t. c = Call_Walk r t) \<or>
             (\<exists>h ts ps ids. c = Call_FindFilteredSnapshots r h ts ps ids)"
    using calls_runLs_cases [of E opts args] by blast
  then show ?thesis
  proof cases
    case fatal
    then show ?thesis by simp
  next
    case noopen
    then show ?thesis by (auto simp add: less_Suc_eq)
  next
    case noload
    then show ?thesis by (auto simp add: less_Suc_eq)
  next
    case walks
    have nolock: "\<forall>r'. Call_lockRepo r' \<notin> set ?cs"
      using walks(3,4) by auto
    have "OpenRepository E = Inr r' \<and> LoadIndex E r' = None \<and> 2 \<le> i \<and>
          ?cs ! 0 = Call_OpenRepository \<and> ?cs ! 1 = Call_LoadIndex r'"
      if i: "i < length ?cs" and w: "?cs ! i = Call_Walk r' t" for i r' t
    proof -
      have two: "2 \<le> i"
      proof (rule ccontr)
        assume "\<not> 2 \<le> i"
        then have "i = 0 \<or> i = 1" by arith
        then show False using w walks(3) by auto
      qed
      then have "?cs ! i = ws ! (i - 2)" using walks(3) by (simp add: nth_append numeral_2_eq_2)
      moreover have "i - 2 < length ws" using i two walks(3) by simp
      ultimately have "Call_Walk r' t \<in> set ws" using w by (metis nth_mem)
      then have "r' = r" using walks(4) by auto
      then show ?thesis using walks(1,2,3) two by simp
    qed
    then show ?thesis using nolock by blast
  qed
qed

text \<open>The closure on a visited node, one that is not nil and comes without error, when
  directory arguments are given.\<close>

lemma lsWalkFunc_visited_node:
  assumes "dirs \<noteq> []"
  shows "lsWalkFunc opts listLong Dir dirs nodepath (Some n) None out =
      (if (\<exists>dir \<in> set dirs. if Recursive opts then (\<exists>rest. nodepath = dir @ rest)
                                               else Dir nodepath = dir)
       then ((False, None), out @ [Printf_node nodepath n listLong])
       else ((True, None), out))"
  using assms by (auto simp add: lsWalkFunc_def match_dirs_iff HasPrefix_iff)

text \<open>A walker that visits a list of nodes leaves the lines of the matching ones.\<close>

lemma fold_lsWalkFunc:
  assumes "dirs \<noteq> []"
  shows "fold (\<lambda>(p, n) out. snd (lsWalkFunc opts listLong Dir dirs p (Some n) None out)) ns out =
     out @ map (\<lambda>(p, n). Printf_node p n listLong)
       (filter (\<lambda>(p, n). \<exists>dir \<in> set dirs. if Recursive opts then (\<exists>rest. p = dir @ rest)
                                                    else Dir p = dir) ns)"
proof (induction ns arbitrary: out)
  case Nil
  then show ?case by simp
next
  case (Cons x ns)
  obtain p n where x: "x = (p, n)" by (cases x)
  show ?case
    using Cons.IH lsWalkFunc_visited_node [OF assms, of opts listLong Dir p n out]
    by (simp add: x)
qed

lemma walk_snapshots_visiting:
  assumes "dirs \<noteq> []"
    and "walker_Walk E =
       (\<lambda>r t f out. (None, fold (\<lambda>(p, n) acc. snd (f p (Some n) None acc)) (nodes t) out))"
    and "\<forall>sn \<in> set sns. sn_Tree sn \<noteq> None"
  shows "walk_snapshots E opts dirs repo sns cs out =
     (Inr (),
      cs @ map (\<lambda>sn. Call_Walk repo (the (sn_Tree sn))) sns,
      out @ concat (map (\<lambda>sn. Verbosef_snapshot sn #
          map (\<lambda>(p, n). Printf_node p n (lsOptions_ListLong E))
            (filter (\<lambda>(p, n). \<exists>dir \<in> set dirs. if Recursive opts then (\<exists>rest. p = dir @ rest)
                                                         else filepath_Dir E p = dir)
               (nodes (the (sn_Tree sn))))) sns))"
  using assms(3)
proof (induction sns arbitrary: cs out)
  case Nil
  then show ?case by simp
next
  case (Cons sn sns)
  then obtain t where t: "sn_Tree sn = Some t" by auto
  from Cons.prems have rest: "\<forall>sn \<in> set sns. sn_Tree sn \<noteq> None" by simp
  have w: "walker_Walk E repo t
      (lsWalkFunc opts (lsOptions_ListLong E) (filepath_Dir E) dirs)
      (out @ [Verbosef_snapshot sn]) =
    (None, (out @ [Verbosef_snapshot sn]) @ map (\<lambda>(p, n). Printf_node p n (lsOptions_ListLong E))
            (filter (\<lambda>(p, n). \<exists>dir \<in> set dirs. if Recursive opts then (\<exists>rest. p = dir @ rest)
                                                         else filepath_Dir E p = dir)
               (nodes t)))"
    unfolding assms(2) fold_lsWalkFunc [OF assms(1)] ..
  show ?case
    unfolding walk_snapshots.simps t option.case w prod.case Cons.IH [OF rest]
    using t by simp
qed


text \<open>
  Claim C10. \<open>runLs\<close> takes the directory filters from \<open>args[1:]\<close> and hands the closure
  built from them to \<open>walker.Walk\<close>. With directory arguments given, a repository that
  opens, an index that loads, snapshots that have a tree and a walker that visits the nodes
  of each tree in order, the run prints, after the line of each snapshot, exactly the
  visited nodes that some \<open>dir\<close> matches, in the order visited: in recursive mode \<open>dir\<close> is
  a string prefix of the node's path, otherwise \<open>filepath.Dir\<close> of the node's path equals
  \<open>dir\<close>. The run returns nil. On a node that does not match the closure prints nothing and
  returns \<open>(true, nil)\<close>; on one that matches it prints the node and returns
  \<open>(false, nil)\<close>. The prefix test is on characters, so \<open>/foo\<close> matches \<open>/foobar/file\<close>.
\<close>

theorem runLs_dir_filter:
  "(dirs \<noteq> [] \<and> OpenRepository E = Inr repo \<and> LoadIndex E repo = None \<and>
    walker_Walk E =
       (\<lambda>r t f out. (None, fold (\<lambda>(p, n) acc. snd (f p (Some n) None acc)) (nodes t) out)) \<and>
    (\<forall>sn \<in> set (FindFilteredSnapshots E repo (Host opts) (Tags opts) (Paths opts) [a]).
        sn_Tree sn \<noteq> None)
    \<longrightarrow>
    runLs E opts (a # dirs) =
      (Inr (),
       [Call_OpenRepository, Call_LoadIndex repo,
        Call_FindFilteredSnapshots repo (Host opts) (Tags opts) (Paths opts) [a]] @
         map (\<lambda>sn. Call_Walk repo (the (sn_Tree sn)))
           (FindFilteredSnapshots E repo (Host opts) (Tags opts) (Paths opts) [a]),
       concat (map (\<lambda>sn. Verbosef_snapshot sn #
          map (\<lambda>(p, n). Printf_node p n (lsOptions_ListLong E))
            (filter (\<lambda>(p, n). \<exists>dir \<in> set dirs. if Recursive opts then (\<exists>rest. p = dir @ rest)
                                                         else filepath_Dir E p = dir)
               (nodes (the (sn_Tree sn)))))
          (FindFilteredSnapshots E repo (Host opts) (Tags opts) (Paths opts) [a]))))
   \<and> (dirs \<noteq> [] \<longrightarrow>
        lsWalkFunc opts (lsOptions_ListLong E) (filepath_Dir E) dirs nodepath (Some n) None out =
          (if (\<exists>dir \<in> set dirs. if Recursive opts then (\<exists>rest. nodepath = dir @ rest)
                                                   else filepath_Dir E nodepath = dir)
           then ((False, None), out @ [Printf_node nodepath n (lsOptions_ListLong E)])
           else ((True, None), out)))
   \<and> HasPrefix ''/foobar/file'' ''/foo''"
proof (intro conjI impI)
  assume h: "dirs \<noteq> [] \<and> OpenRepository E = Inr repo \<and> LoadIndex E repo = None \<and>
    walker_Walk E =
       (\<lambda>r t f out. (None, fold (\<lambda>(p, n) acc. snd (f p (Some n) None acc)) (nodes t) out)) \<and>
    (\<forall>sn \<in> set (FindFilteredSnapshots E repo (Host opts) (Tags opts) (Paths opts) [a]).
        sn_Tree sn \<noteq> None)"
  from h have d: "dirs \<noteq> []" by (elim conjE)
  from h have op_ok: "OpenRepository E = Inr repo" by (elim conjE)
  from h have ld_ok: "LoadIndex E repo = None" by (elim conjE)
  from h have w: "walker_Walk E =
       (\<lambda>r t f out. (None, fold (\<lambda>(p, n) acc. snd (f p (Some n) None acc)) (nodes t) out))"
    by (elim conjE)
  from h have s: "\<forall>sn \<in> set (FindFilteredSnapshots E repo (Host opts) (Tags opts) (Paths opts) [a]).
        sn_Tree sn \<noteq> None"
    by (elim conjE)
  have "runLs E opts (a # dirs) =
      walk_snapshots E opts dirs repo
        (FindFilteredSnapshots E repo (Host opts) (Tags opts) (Paths opts) [a])
        [Call_OpenRepository, Call_LoadIndex repo,
         Call_FindFilteredSnapshots repo (Host opts) (Tags opts) (Paths opts) [a]] []"
    by (simp add: runLs_def op_ok ld_ok)
  then show "runLs E opts (a # dirs) =
      (Inr (),
       [Call_OpenRepository, Call_LoadIndex repo,
        Call_FindFilteredSnapshots repo (Host opts) (Tags opts) (Paths opts) [a]] @
         map (\<lambda>sn. Call_Walk repo (the (sn_Tree sn)))
           (FindFilteredSnapshots E repo (Host opts) (Tags opts) (Paths opts) [a]),
       concat (map (\<lambda>sn. Verbosef_snapshot sn #
          map (\<lambda>(p, n). Printf_node p n (lsOptions_ListLong E))
            (filter (\<lambda>(p, n). \<exists>dir \<in> set dirs. if Recursive opts then (\<exists>rest. p = dir @ rest)
                                                         else filepath_Dir E p = dir)
               (nodes (the (sn_Tree sn)))))
          (FindFilteredSnapshots E repo (Host opts) (Tags opts) (Paths opts) [a])))"
    by (simp only: walk_snapshots_visiting [OF d w s] append_Nil)
next
  assume d: "dirs \<noteq> []"
  show "lsWalkFunc opts (lsOptions_ListLong E) (filepath_Dir E) dirs nodepath (Some n) None out =
          (if (\<exists>dir \<in> set dirs. if Recursive opts then (\<exists>rest. nodepath = dir @ rest)
                                                   else filepath_Dir E nodepath = dir)
           then ((False, None), out @ [Printf_node nodepath n (lsOptions_ListLong E)])
           else ((True, None), out))"
    by (rule lsWalkFunc_visited_node [OF d])
next
  show "HasPrefix ''/foobar/file'' ''/foo''" by (simp add: HasPrefix_def)
qed


text \<open>
  With a filter set and no positional argument the guard lets the run through, and
  \<open>args[1:]\<close> panics once the repository is open and its index loaded.
\<close>

lemma runLs_filter_without_snapshot_panics:
  "Host opts \<noteq> [] \<Longrightarrow> OpenRepository E = Inr repo \<Longrightarrow> LoadIndex E repo = None \<Longrightarrow>
     runLs E opts [] =
       (Inl (Panic ''slice bounds out of range [1:0]''),
        [Call_OpenRepository, Call_LoadIndex repo], [])"
  by (simp add: runLs_def)

text \<open>A run of the example environment that reaches the walk and prints a node.\<close>

theorem runLs_walk_after_LoadIndex_witness:
  "3 < length (calls (runLs ls_example_env ls_example_opts [''latest'', ''/foo''])) \<and>
   calls (runLs ls_example_env ls_example_opts [''latest'', ''/foo'']) ! 3 = Call_Walk 0 7 \<and>
   OpenRepository ls_example_env = Inr 0 \<and> LoadIndex ls_example_env 0 = None \<and>
   calls (runLs ls_example_env ls_example_opts [''latest'', ''/foo'']) ! 0 = Call_OpenRepository \<and>
   calls (runLs ls_example_env ls_example_opts [''latest'', ''/foo'']) ! 1 = Call_LoadIndex 0 \<and>
   printed (runLs ls_example_env ls_example_opts [''latest'', ''/foo'']) =
     [Verbosef_snapshot \<lparr>sn_ID = ''4bba301e'', sn_Paths = [''/''], sn_Time = ''2018-06-10'', sn_Tree = Some 7\<rparr>,
      Printf_node ''/foobar/file'' 1 False]"
proof -
  have h: "3 < length (calls (runLs ls_example_env ls_example_opts [''latest'', ''/foo''])) \<and>
      calls (runLs ls_example_env ls_example_opts [''latest'', ''/foo'']) ! 3 = Call_Walk 0 7"
    by (simp add: runLs_def calls_def lsWalkFunc_def HasPrefix_def)
  have p: "printed (runLs ls_example_env ls_example_opts [''latest'', ''/foo'']) =
     [Verbosef_snapshot \<lparr>sn_ID = ''4bba301e'', sn_Paths = [''/''], sn_Time = ''2018-06-10'', sn_Tree = Some 7\<rparr>,
      Printf_node ''/foobar/file'' 1 False]"
    by (simp add: runLs_def printed_def lsWalkFunc_def HasPrefix_def)
  from runLs_walk_after_LoadIndex [of ls_example_env ls_example_opts "[''latest'', ''/foo'']"] h
  have "OpenRepository ls_example_env = Inr 0 \<and> LoadIndex ls_example_env 0 = None \<and>
    calls (runLs ls_example_env ls_example_opts [''latest'', ''/foo'']) ! 0 = Call_OpenRepository \<and>
    calls (runLs ls_example_env ls_example_opts [''latest'', ''/foo'']) ! 1 = Call_LoadIndex 0"
    by blast
  with h p show ?thesis by blast
qed

text \<open>The filter \<open>/foo\<close> in recursive mode: of the two files visited, \<open>/foobar/file\<close> is
  printed and \<open>/other/file\<close> is not. In non-recursive mode the closure skips
  \<open>/foobar/file\<close>, whose parent directory is \<open>/foobar\<close>.\<close>

theorem runLs_dir_filter_witness:
  "runLs ls_example_visiting_env ls_example_opts [''latest'', ''/foo''] =
     (Inr (),
      [Call_OpenRepository, Call_LoadIndex 0,
       Call_FindFilteredSnapshots 0 [] [] [] [''latest''], Call_Walk 0 7],
      [Verbosef_snapshot
         \<lparr>sn_ID = ''4bba301e'', sn_Paths = [''/''], sn_Time = ''2018-06-10'', sn_Tree = Some 7\<rparr>,
       Printf_node ''/foobar/file'' 1 False]) \<and>
   lsWalkFunc (ls_example_opts\<lparr>Recursive := False\<rparr>) False
       (\<lambda>p. if p = ''/foobar/file'' then ''/foobar'' else ''/other'') [''/foo'']
       ''/foobar/file'' (Some (1::nat)) None ([] :: (nat, nat) printout list)
     = ((True, None), [])"
proof -
  have m1: "(\<exists>rest. ''/foobar/file'' = ''/foo'' @ rest) = True"
    by (simp add: HasPrefix_iff [symmetric] HasPrefix_def)
  have m2: "(\<exists>rest. ''/other/file'' = ''/foo'' @ rest) = False"
    by (simp add: HasPrefix_iff [symmetric] HasPrefix_def)
  have d: "[''/foo''] \<noteq> []" by simp
  have hyp: "[''/foo''] \<noteq> [] \<and> OpenRepository ls_example_visiting_env = Inr 0 \<and>
    LoadIndex ls_example_visiting_env 0 = None \<and>
    walker_Walk ls_example_visiting_env =
       (\<lambda>r t f out. (None, fold (\<lambda>(p, n) acc. snd (f p (Some n) None acc))
          ((\<lambda>t. [(''/foobar/file'', 1::nat), (''/other/file'', 2)]) t) out)) \<and>
    (\<forall>sn \<in> set (FindFilteredSnapshots ls_example_visiting_env 0 (Host ls_example_opts)
          (Tags ls_example_opts) (Paths ls_example_opts) [''latest'']).
        sn_Tree sn \<noteq> None)"
    by simp
  note inst = runLs_dir_filter
      [of "[''/foo'']" ls_example_visiting_env "0::nat"
          "\<lambda>t. [(''/foobar/file'', 1::nat), (''/other/file'', 2)]" ls_example_opts "''latest''"
          "''/foobar/file''" "1::nat" "[] :: (nat, nat) printout list"]
  have run: "runLs ls_example_visiting_env ls_example_opts [''latest'', ''/foo''] =
     (Inr (),
      [Call_OpenRepository, Call_LoadIndex 0,
       Call_FindFilteredSnapshots 0 [] [] [] [''latest''], Call_Walk 0 7],
      [Verbosef_snapshot
         \<lparr>sn_ID = ''4bba301e'', sn_Paths = [''/''], sn_Time = ''2018-06-10'', sn_Tree = Some 7\<rparr>,
       Printf_node ''/foobar/file'' 1 False])"
    using inst [THEN conjunct1, THEN mp, OF hyp] by (simp add: m1 m2)
  note inst2 = runLs_dir_filter
      [of "[''/foo'']" ls_example_visiting_env "0::nat"
          "\<lambda>t. [(''/foobar/file'', 1::nat), (''/other/file'', 2)]"
          "ls_example_opts\<lparr>Recursive := False\<rparr>" "''latest''"
          "''/foobar/file''" "1::nat" "[] :: (nat, nat) printout list"]
  have skip: "lsWalkFunc (ls_example_opts\<lparr>Recursive := False\<rparr>) False
       (\<lambda>p. if p = ''/foobar/file'' then ''/foobar'' else ''/other'') [''/foo'']
       ''/foobar/file'' (Some (1::nat)) None ([] :: (nat, nat) printout list)
     = ((True, None), [])"
    using inst2 [THEN conjunct2, THEN conjunct1, THEN mp, OF d] by simp
  from run skip show ?thesis by (rule conjI)
qed

section \<open>Properties of the lock manager\<close>

lemma check_locks_append:
  "check_locks P now excl own (xs @ ys) =
     (case check_locks P now excl own xs of
        Some e \<Rightarrow> Some e
      | None \<Rightarrow> check_locks P now excl own ys)"
  by (induction P now excl own xs rule: check_locks.induct) (auto split: option.splits)

lemma check_locks_own:
  "check_locks P now excl (Some k) objs =
     check_locks P now excl None (filter (\<lambda>(j, w). j \<noteq> k) objs)"
  by (induction objs) (auto split: option.splits)

lemma check_locks_nonempty:
  "check_locks P now excl own objs =
     check_locks P now excl own (filter (\<lambda>(j, w). w \<noteq> []) objs)"
proof (induction objs)
  case Nil
  then show ?case by simp
next
  case (Cons a objs)
  obtain i payload where a: "a = (i, payload)" by (cases a)
  show ?case
  proof (cases "payload = []")
    case True
    with a Cons show ?thesis by auto
  next
    case False
    with a Cons show ?thesis by (cases "parse_lock P payload") auto
  qed
qed

lemma filter_backend_put:
  "filter (\<lambda>(j, w). j \<noteq> k) (backend_put objs k v) = filter (\<lambda>(j, w). j \<noteq> k) objs"
proof (cases "k \<in> fst ` set objs")
  case True
  have "filter (\<lambda>(j, w). j \<noteq> k) (map (\<lambda>(j, w). if j = k then (j, v) else (j, w)) objs)
      = filter (\<lambda>(j, w). j \<noteq> k) objs"
    by (induction objs) auto
  with True show ?thesis by (simp add: backend_put_def)
next
  case False
  then show ?thesis by (simp add: backend_put_def)
qed

text \<open>The second pass sees the objects of others only.\<close>

lemma second_pass:
  "check_locks P now excl (Some k) (backend_put objs k v @ arrived) =
     check_locks P now excl None (filter (\<lambda>(j, w). j \<noteq> k) (objs @ arrived))"
  by (simp add: check_locks_own filter_backend_put)

lemma check_locks_unreadable_blocks:
  "(i, payload) \<in> set objs \<Longrightarrow> own \<noteq> Some i \<Longrightarrow> payload \<noteq> [] \<Longrightarrow>
     parse_lock P payload = None \<Longrightarrow> check_locks P now excl own objs \<noteq> None"
  by (induction objs) (auto split: option.splits)



lemma backend_remove_put:
  "backend_remove (backend_put objs k v @ arrived) k =
     filter (\<lambda>(j, w). j \<noteq> k) (objs @ arrived)"
  by (simp add: backend_remove_def filter_backend_put)

lemma mem_backend_put:
  assumes "(j, b) \<in> set objs" and "j \<noteq> k"
  shows "(j, b) \<in> set (backend_put objs k v)"
proof -
  from assms have "(j, b) \<in> set (filter (\<lambda>(j, w). j \<noteq> k) objs)" by simp
  then have "(j, b) \<in> set (filter (\<lambda>(j, w). j \<noteq> k) (backend_put objs k v))"
    by (simp only: filter_backend_put)
  then show ?thesis by simp
qed

text \<open>The three ways an acquisition ends.\<close>

lemma acquire_first_pass_fails:
  "check_locks P now excl None objs = Some e \<Longrightarrow>
     acquire P now excl me objs arrived = (Inl e, objs)"
  by (simp add: acquire_def)

lemma acquire_second_pass_fails:
  "check_locks P now excl None objs = None \<Longrightarrow>
   check_locks P now excl None (filter (\<lambda>(j, w). j \<noteq> lockID me) (objs @ arrived)) = Some e \<Longrightarrow>
     acquire P now excl me objs arrived =
       (Inl e, filter (\<lambda>(j, w). j \<noteq> lockID me) (objs @ arrived))"
  by (simp add: acquire_def Let_def second_pass backend_remove_put del: filter_append)

lemma acquire_succeeds:
  "check_locks P now excl None objs = None \<Longrightarrow>
   check_locks P now excl None (filter (\<lambda>(j, w). j \<noteq> lockID me) (objs @ arrived)) = None \<Longrightarrow>
     acquire P now excl me objs arrived =
       (Inr (me\<lparr>creationTime := now, exclusive := excl\<rparr>),
        backend_put objs (lockID me)
          (serialize_lock P (me\<lparr>creationTime := now, exclusive := excl\<rparr>)) @ arrived)"
  by (simp add: acquire_def Let_def second_pass del: filter_append)

lemma acquire_keeps_others:
  assumes "(j, b) \<in> set objs \<or> (check_locks P now excl None objs = None \<and> (j, b) \<in> set arrived)"
    and "j \<noteq> lockID me"
  shows "(j, b) \<in> set (snd (acquire P now excl me objs arrived))"
proof (cases "check_locks P now excl None objs")
  case (Some e)
  with assms show ?thesis by (simp add: acquire_first_pass_fails)
next
  case None
  from assms have m: "(j, b) \<in> set (filter (\<lambda>(j, w). j \<noteq> lockID me) (objs @ arrived))"
    by auto
  show ?thesis
  proof (cases "check_locks P now excl None (filter (\<lambda>(j, w). j \<noteq> lockID me) (objs @ arrived))")
    case (Some e)
    with None m show ?thesis by (simp only: acquire_second_pass_fails snd_conv)
  next
    case none2: None
    from assms have "(j, b) \<in> set (backend_put objs (lockID me)
          (serialize_lock P (me\<lparr>creationTime := now, exclusive := excl\<rparr>)) @ arrived)"
      using mem_backend_put [of j b objs "lockID me"] by auto
    with None none2 show ?thesis by (simp only: acquire_succeeds snd_conv)
  qed
qed

lemma acquire_unreadable_arrived:
  assumes "(i, payload) \<in> set arrived" and "i \<noteq> lockID me" and "payload \<noteq> []"
    and "parse_lock P payload = None"
  shows "\<exists>e. acquire P now excl me objs arrived =
     (Inl e, if check_locks P now excl None objs = None
             then filter (\<lambda>(j, w). j \<noteq> lockID me) (objs @ arrived) else objs)"
proof (cases "check_locks P now excl None objs")
  case (Some e)
  then show ?thesis by (simp add: acquire_first_pass_fails)
next
  case None
  from assms have "(i, payload) \<in> set (filter (\<lambda>(j, w). j \<noteq> lockID me) (objs @ arrived))"
    by simp
  then have "check_locks P now excl None (filter (\<lambda>(j, w). j \<noteq> lockID me) (objs @ arrived)) \<noteq> None"
    using check_locks_unreadable_blocks [of i payload _ None P now excl] assms(3,4) by blast
  then obtain e where "check_locks P now excl None
      (filter (\<lambda>(j, w). j \<noteq> lockID me) (objs @ arrived)) = Some e" by blast
  with None have "acquire P now excl me objs arrived =
       (Inl e, filter (\<lambda>(j, w). j \<noteq> lockID me) (objs @ arrived))"
    by (rule acquire_second_pass_fails)
  with None show ?thesis by simp
qed


text \<open>
  Claim C3. Zero-length lock objects are ignored: an acquisition gives the result it gives
  when they are not there at all, so it proceeds as if those locks did not exist. A
  non-empty object that does not parse blocks the acquisition. If it is among the objects of
  the backend, the acquisition fails and the backend's lock objects are left as they were.
  If it arrives before the second listing, the acquisition fails as well, and what the
  backend holds afterwards is every object of the others, the unreadable one among them:
  only the requester's own lock object is removed. Once the pass reaches an unreadable object
  (everything listed before it being passed over), the failure is the Fatal unreadable-lock
  condition naming that object. No acquisition, whatever its outcome, removes an object whose
  identifier is not the one of the requester's lock.
\<close>

theorem acquire_lock_object_classification:
  "fst (acquire P now excl me objs arrived) =
     fst (acquire P now excl me (filter (\<lambda>(j, w). w \<noteq> []) objs)
            (filter (\<lambda>(j, w). w \<noteq> []) arrived))
   \<and> ((i, payload) \<in> set objs \<and> payload \<noteq> [] \<and> parse_lock P payload = None \<longrightarrow>
        (\<exists>e. acquire P now excl me objs arrived = (Inl e, objs)))
   \<and> ((i, payload) \<in> set arrived \<and> i \<noteq> lockID me \<and> payload \<noteq> [] \<and>
        parse_lock P payload = None \<longrightarrow>
        (\<exists>e. acquire P now excl me objs arrived =
           (Inl e, if check_locks P now excl None objs = None
                   then filter (\<lambda>(j, w). j \<noteq> lockID me) (objs @ arrived) else objs)))
   \<and> (check_locks P now excl None pre = None \<and> payload \<noteq> [] \<and>
        parse_lock P payload = None \<longrightarrow>
        acquire P now excl me (pre @ (i, payload) # post) arrived =
          (Inl (Unreadable_lock i), pre @ (i, payload) # post))
   \<and> (((j, b) \<in> set objs \<or>
         (check_locks P now excl None objs = None \<and> (j, b) \<in> set arrived)) \<and>
        j \<noteq> lockID me \<longrightarrow>
        (j, b) \<in> set (snd (acquire P now excl me objs arrived)))"
proof (intro conjI impI)
  let ?ne = "filter (\<lambda>(j, w::bytes). w \<noteq> [])"
  let ?k = "lockID me"
  have first: "check_locks P now excl None (?ne objs) = check_locks P now excl None objs"
    by (rule check_locks_nonempty [symmetric])
  have "filter (\<lambda>(j, w). j \<noteq> ?k) (?ne objs @ ?ne arrived) =
      ?ne (filter (\<lambda>(j, w). j \<noteq> ?k) (objs @ arrived))"
    by (simp add: conj_commute)
  then have second: "check_locks P now excl (Some ?k) (backend_put (?ne objs) ?k v @ ?ne arrived)
      = check_locks P now excl (Some ?k) (backend_put objs ?k v @ arrived)" for v
    unfolding second_pass using check_locks_nonempty [of P now excl None "filter (\<lambda>(j, w). j \<noteq> ?k) (objs @ arrived)"]
    by simp
  show "fst (acquire P now excl me objs arrived) =
     fst (acquire P now excl me (?ne objs) (?ne arrived))"
    by (simp add: acquire_def first second Let_def split: option.splits)
next
  assume h: "(i, payload) \<in> set objs \<and> payload \<noteq> [] \<and> parse_lock P payload = None"
  then have "check_locks P now excl None objs \<noteq> None"
    using check_locks_unreadable_blocks [of i payload objs None P now excl] by simp
  then show "\<exists>e. acquire P now excl me objs arrived = (Inl e, objs)"
    by (auto simp add: acquire_def)
next
  assume h: "(i, payload) \<in> set arrived \<and> i \<noteq> lockID me \<and> payload \<noteq> [] \<and>
        parse_lock P payload = None"
  then show "\<exists>e. acquire P now excl me objs arrived =
           (Inl e, if check_locks P now excl None objs = None
                   then filter (\<lambda>(j, w). j \<noteq> lockID me) (objs @ arrived) else objs)"
    using acquire_unreadable_arrived [of i payload arrived me P now excl objs] by simp
next
  assume h: "check_locks P now excl None pre = None \<and> payload \<noteq> [] \<and>
        parse_lock P payload = None"
  then have "check_locks P now excl None (pre @ (i, payload) # post) = Some (Unreadable_lock i)"
    by (simp add: check_locks_append)
  then show "acquire P now excl me (pre @ (i, payload) # post) arrived =
          (Inl (Unreadable_lock i), pre @ (i, payload) # post)"
    by (simp add: acquire_def)
next
  assume h: "((j, b) \<in> set objs \<or>
         (check_locks P now excl None objs = None \<and> (j, b) \<in> set arrived)) \<and>
        j \<noteq> lockID me"
  then show "(j, b) \<in> set (snd (acquire P now excl me objs arrived))"
    using acquire_keeps_others [of j b objs P now excl arrived me] by simp
qed


text \<open>An empty object alone lets the acquisition through. The unreadable object \<open>8\<close>
  after an empty one stops it. When it arrives before the second listing, beside the stale
  lock \<open>2\<close>, the acquisition fails and both objects are still in the backend.\<close>

theorem acquire_lock_object_classification_witness:
  "fst (acquire lock_example_params 10000 True lock_example_me [(9, [])] []) =
     Inr (lock_example_me\<lparr>creationTime := 10000, exclusive := True\<rparr>) \<and>
   parse_lock lock_example_params [7, 7] = None \<and>
   (\<exists>e. acquire lock_example_params 10000 True lock_example_me [(9, []), (8, [7, 7])] [] =
     (Inl e, [(9, []), (8, [7, 7])])) \<and>
   acquire lock_example_params 10000 True lock_example_me [(9, []), (8, [7, 7])] [] =
     (Inl (Unreadable_lock 8), [(9, []), (8, [7, 7])]) \<and>
   (\<exists>e. acquire lock_example_params 10000 True lock_example_me [(2, [2])] [(8, [7, 7])] =
     (Inl e, [(2, [2]), (8, [7, 7])])) \<and>
   (8, [7, 7]) \<in> set (snd (acquire lock_example_params 10000 True lock_example_me
                            [(2, [2])] [(8, [7, 7])]))"
proof -
  have e: "fst (acquire lock_example_params 10000 True lock_example_me [] []) =
     Inr (lock_example_me\<lparr>creationTime := 10000, exclusive := True\<rparr>)"
    by (simp add: acquire_def backend_put_def)
  have h0: "parse_lock lock_example_params [7, 7] = None" by simp
  note t1 = acquire_lock_object_classification
    [where P = lock_example_params and now = 10000 and excl = True and me = lock_example_me
       and objs = "[(9, [])]" and arrived = "[]" and i = 8 and payload = "[7, 7]"
       and pre = "[]" and post = "[]" and j = 8 and b = "[7, 7]"]
  from t1 [THEN conjunct1] e
  have c1: "fst (acquire lock_example_params 10000 True lock_example_me [(9, [])] []) =
     Inr (lock_example_me\<lparr>creationTime := 10000, exclusive := True\<rparr>)"
    by simp
  note t2 = acquire_lock_object_classification
    [where P = lock_example_params and now = 10000 and excl = True and me = lock_example_me
       and objs = "[(9, []), (8, [7, 7])]" and arrived = "[]" and i = 8 and payload = "[7, 7]"
       and pre = "[(9, [])]" and post = "[]" and j = 8 and b = "[7, 7]"]
  have h2: "(8, [7, 7]) \<in> set [(9::nat, []), (8, [7, 7::8 word])] \<and> [7, 7::8 word] \<noteq> [] \<and>
      parse_lock lock_example_params [7, 7] = None"
    by simp
  from t2 [THEN conjunct2, THEN conjunct1, THEN mp, OF h2]
  have c2: "\<exists>e. acquire lock_example_params 10000 True lock_example_me
        [(9, []), (8, [7, 7])] [] = (Inl e, [(9, []), (8, [7, 7])])" .
  have h4: "check_locks lock_example_params 10000 True None [(9, [])] = None \<and>
      [7, 7::8 word] \<noteq> [] \<and> parse_lock lock_example_params [7, 7] = None"
    by simp
  from t2 [THEN conjunct2, THEN conjunct2, THEN conjunct2, THEN conjunct1, THEN mp, OF h4]
  have c4: "acquire lock_example_params 10000 True lock_example_me [(9, []), (8, [7, 7])] [] =
     (Inl (Unreadable_lock 8), [(9, []), (8, [7, 7])])"
    by simp
  note t3 = acquire_lock_object_classification
    [where P = lock_example_params and now = 10000 and excl = True and me = lock_example_me
       and objs = "[(2, [2])]" and arrived = "[(8, [7, 7])]" and i = 8 and payload = "[7, 7]"
       and pre = "[]" and post = "[]" and j = 8 and b = "[7, 7]"]
  have h3: "(8, [7, 7]) \<in> set [(8::nat, [7, 7::8 word])] \<and> 8 \<noteq> lockID lock_example_me \<and>
      [7, 7::8 word] \<noteq> [] \<and> parse_lock lock_example_params [7, 7] = None"
    by simp
  from t3 [THEN conjunct2, THEN conjunct2, THEN conjunct1, THEN mp, OF h3]
  have c3: "\<exists>e. acquire lock_example_params 10000 True lock_example_me [(2, [2])] [(8, [7, 7])] =
     (Inl e, [(2, [2]), (8, [7, 7])])"
    by (simp add: stale_def)
  have h5: "((8, [7, 7]) \<in> set [(2::nat, [2::8 word])] \<or>
      (check_locks lock_example_params 10000 True None [(2, [2])] = None \<and>
       (8, [7, 7]) \<in> set [(8::nat, [7, 7::8 word])])) \<and> 8 \<noteq> lockID lock_example_me"
    by (simp add: stale_def)
  from t3 [THEN conjunct2, THEN conjunct2, THEN conjunct2, THEN conjunct2, THEN mp, OF h5]
  have c5: "(8, [7, 7]) \<in> set (snd (acquire lock_example_params 10000 True lock_example_me
                            [(2, [2])] [(8, [7, 7])]))" .
  from c1 h0 c2 c4 c3 c5 show ?thesis by (intro conjI)
qed



end
